theory Spec2Isabelle
  imports Main "HOL-Library.AList"
begin

section \<open>FIX log to CSV: the tokenizer, the decoder and the order/execution correlator\<close>

text \<open>
  A shallow embedding of \<^verbatim>\<open>src/Assignment1/fix_to_csv.py\<close> (the copy under
  \<^verbatim>\<open>src/Assignment 1/\<close> has the same two functions with shorter variable names).

  \<^item> A Python \<^verbatim>\<open>str\<close> is a \<open>string\<close>; a \<open>char\<close> stands for the code point of the
    same number, so the model covers the lines whose code points are below 256. Every
    character the program tests for (the separators, \<^verbatim>\<open>=\<close>, the newline) is in that range.
  \<^item> A Python \<^verbatim>\<open>dict\<close> is an association list with distinct keys in insertion order;
    \<^verbatim>\<open>d[k] = v\<close> is \<open>AList.update k v d\<close> (replace in place, else append) and
    \<^verbatim>\<open>d.get(k)\<close> is \<open>map_of d k\<close>.
  \<^item> The file objects are explicit state: the input file is the list of the raw lines its
    iteration yields, the CSV writer is the list of the rows handed to \<^verbatim>\<open>writerow\<close> so far
    (each row a list of cells, before the CSV quoting). Opening the two files, the only
    step of \<^verbatim>\<open>process_fix_file\<close> that can raise, is outside the model.
\<close>

subsection \<open>Python string primitives\<close>

text \<open>The characters \<^verbatim>\<open>str.isspace\<close> accepts, among the code points below 256.\<close>

definition is_space :: "char \<Rightarrow> bool" where
  "is_space c = (c \<in> set [CHR 0x09, CHR 0x0A, CHR 0x0B, CHR 0x0C, CHR 0x0D,
                            CHR 0x1C, CHR 0x1D, CHR 0x1E, CHR 0x1F, CHR 0x20,
                            CHR 0x85, CHR 0xA0])"

text \<open>\<^verbatim>\<open>s.strip()\<close>: leading and trailing whitespace removed.\<close>

definition strip :: "string \<Rightarrow> string" where
  "strip s = rev (dropWhile is_space (rev (dropWhile is_space s)))"

text \<open>\<^verbatim>\<open>s.rstrip('\n')\<close>: trailing newlines removed.\<close>

definition rstrip_nl :: "string \<Rightarrow> string" where
  "rstrip_nl s = rev (dropWhile (\<lambda>c. c = CHR 0x0A) (rev s))"

text \<open>
  \<^verbatim>\<open>s.split()\<close>: the maximal runs of non-whitespace characters, in order; \<open>cur\<close> is the
  run being read.
\<close>

fun split_ws_from :: "string \<Rightarrow> string \<Rightarrow> string list" where
  "split_ws_from cur [] = (if cur = [] then [] else [cur])"
| "split_ws_from cur (c # cs) =
     (if is_space c
      then (if cur = [] then split_ws_from [] cs else cur # split_ws_from [] cs)
      else split_ws_from (cur @ [c]) cs)"

definition split_ws :: "string \<Rightarrow> string list" where
  "split_ws s = split_ws_from [] s"

text \<open>
  \<^verbatim>\<open>s.split(sep)\<close> for a one-character separator: every occurrence separates, empty
  pieces are kept, and the empty string gives one empty piece.
\<close>

fun split_on :: "char \<Rightarrow> string \<Rightarrow> string list" where
  "split_on sep [] = [[]]"
| "split_on sep (c # cs) =
     (if c = sep then [] # split_on sep cs
      else (case split_on sep cs of
              [] \<Rightarrow> [[c]]
            | t # ts \<Rightarrow> (c # t) # ts))"

text \<open>\<^verbatim>\<open>sep.join(pieces)\<close>, the inverse of \<^verbatim>\<open>s.split(sep)\<close>; used to state what \<open>split_on\<close> does.\<close>

fun join_with :: "char \<Rightarrow> string list \<Rightarrow> string" where
  "join_with sep [] = []"
| "join_with sep [piece] = piece"
| "join_with sep (piece # next_piece # pieces) = piece @ sep # join_with sep (next_piece # pieces)"

text \<open>
  \<^verbatim>\<open>tag, value = part.split('=', 1)\<close>, which the source reaches only when \<^verbatim>\<open>=\<close> occurs in
  \<open>part\<close>: the text before the first \<^verbatim>\<open>=\<close> and the text after it.
\<close>

definition split_eq1 :: "string \<Rightarrow> string \<times> string" where
  "split_eq1 part =
     (takeWhile (\<lambda>c. c \<noteq> CHR ''='') part, tl (dropWhile (\<lambda>c. c \<noteq> CHR ''='') part))"

subsection \<open>Dictionaries\<close>

type_synonym dict = "(string \<times> string) list"

text \<open>\<^verbatim>\<open>d.get(k)\<close> and \<^verbatim>\<open>d.get(k, default)\<close>.\<close>

definition get :: "(string \<times> 'v) list \<Rightarrow> string \<Rightarrow> 'v option" where
  "get d k = map_of d k"

definition get_default :: "dict \<Rightarrow> string \<Rightarrow> string \<Rightarrow> string" where
  "get_default d k dflt = (case map_of d k of None \<Rightarrow> dflt | Some v \<Rightarrow> v)"

text \<open>\<^verbatim>\<open>a or b\<close> on strings: \<open>a\<close> unless it is empty.\<close>

definition py_or :: "string \<Rightarrow> string \<Rightarrow> string" where
  "py_or a b = (if a \<noteq> [] then a else b)"

subsection \<open>\<^verbatim>\<open>split_fix_message\<close>\<close>

text \<open>\<^verbatim>\<open>SOH_CHARS = ['\x01', '\u0001', '|']\<close>: the first two literals are the same character.\<close>

definition SOH_CHARS :: "char list" where
  "SOH_CHARS = [CHR 0x01, CHR 0x01, CHR ''|'']"

text \<open>The first loop: the first candidate that occurs in the line, \<open>None\<close> when none does.\<close>

fun find_separator :: "char list \<Rightarrow> string \<Rightarrow> char option" where
  "find_separator [] line = None"
| "find_separator (soh_char # rest) line =
     (if soh_char \<in> set line then Some soh_char else find_separator rest line)"

text \<open>The value of \<^verbatim>\<open>parts\<close>.\<close>

definition fix_parts :: "string \<Rightarrow> string list" where
  "fix_parts line =
     (case find_separator SOH_CHARS line of
        None \<Rightarrow> split_ws (strip line)
      | Some separator \<Rightarrow> split_on separator (strip line))"

text \<open>The second loop, over \<^verbatim>\<open>parts\<close>, with the dictionary \<^verbatim>\<open>fields\<close> built so far.\<close>

fun decode_fields :: "string list \<Rightarrow> dict \<Rightarrow> dict" where
  "decode_fields [] fields = fields"
| "decode_fields (part # parts) fields =
     (if part = [] then decode_fields parts fields
      else if CHR ''='' \<notin> set part then decode_fields parts fields
      else (case split_eq1 part of
              (tag, val) \<Rightarrow> decode_fields parts (AList.update tag val fields)))"

definition split_fix_message :: "string \<Rightarrow> dict" where
  "split_fix_message line = decode_fields (fix_parts line) []"

subsection \<open>\<^verbatim>\<open>process_fix_file\<close>\<close>

type_synonym row = "string list"

record state =
  orders :: "(string \<times> dict) list"
  written :: "row list"

definition csv_header :: row where
  "csv_header = [''OrderID'', ''OrderTransactTime'', ''ExecutionTransactTime'', ''Symbol'',
                 ''Side'', ''OrderQty'', ''LimitPrice'', ''AvgPx'', ''LastMkt'']"

text \<open>The dictionary stored for a NewOrderSingle, and the row written for a matched fill.\<close>

definition pending_order :: "string \<Rightarrow> dict \<Rightarrow> dict" where
  "pending_order cl_ord_id message =
     [(''11'', cl_ord_id),
      (''60'', get_default message ''60'' ''''),
      (''55'', get_default message ''55'' ''''),
      (''54'', get_default message ''54'' ''''),
      (''38'', get_default message ''38'' ''''),
      (''44'', get_default message ''44'' '''')]"

definition fill_row :: "string \<Rightarrow> dict \<Rightarrow> dict \<Rightarrow> row" where
  "fill_row cl_ord_id order message =
     [cl_ord_id,
      get_default order ''60'' '''',
      get_default message ''60'' '''',
      py_or (get_default order ''55'' '''') (get_default message ''55'' ''''),
      py_or (get_default order ''54'' '''') (get_default message ''54'' ''''),
      py_or (get_default order ''38'' '''') (get_default message ''38'' ''''),
      py_or (get_default order ''44'' '''') (get_default message ''44'' ''''),
      get_default message ''6'' '''',
      get_default message ''30'' '''']"

text \<open>
  The body of the loop from the decoded message on. Every \<^verbatim>\<open>continue\<close> is a branch that
  returns the state as it is; \<^verbatim>\<open>not cl_ord_id\<close> holds for \<^verbatim>\<open>None\<close> and for the empty
  string, \<^verbatim>\<open>not order\<close> for \<^verbatim>\<open>None\<close> and for the empty dictionary.
\<close>

definition process_message :: "state \<Rightarrow> dict \<Rightarrow> state" where
  "process_message st message =
     (let msg_type = get message ''35'' in
      if msg_type = Some ''D'' then
        (case get message ''11'' of
           None \<Rightarrow> st
         | Some cl_ord_id \<Rightarrow>
             if cl_ord_id = [] then st
             else st\<lparr>orders :=
                       AList.update cl_ord_id (pending_order cl_ord_id message) (orders st)\<rparr>)
      else if msg_type = Some ''8'' then
        (if get message ''150'' \<noteq> Some ''2'' \<or>
            get message ''39'' \<noteq> Some ''2'' \<or>
            get message ''40'' \<noteq> Some ''2''
         then st
         else
           (case get message ''11'' of
              None \<Rightarrow> st
            | Some cl_ord_id \<Rightarrow>
                if cl_ord_id = [] then st
                else
                  (case get (orders st) cl_ord_id of
                     None \<Rightarrow> st
                   | Some order \<Rightarrow>
                       if order = [] then st
                       else st\<lparr>written :=
                                 written st @ [fill_row cl_ord_id order message]\<rparr>)))
      else st)"

text \<open>The body of the loop for one raw line of the input file.\<close>

definition process_line :: "state \<Rightarrow> string \<Rightarrow> state" where
  "process_line st raw_line =
     (let line = rstrip_nl raw_line in
      if line = [] then st
      else process_message st (split_fix_message line))"

text \<open>The loop over the lines of the file.\<close>

fun process_lines :: "state \<Rightarrow> string list \<Rightarrow> state" where
  "process_lines st [] = st"
| "process_lines st (raw_line # rest) = process_lines (process_line st raw_line) rest"

text \<open>
  The whole function on the lines of the input file: the store starts empty, the header is
  written, then the loop runs. The result holds the final store and every row written.
\<close>

definition process_fix_file :: "string list \<Rightarrow> state" where
  "process_fix_file input_file =
     process_lines \<lparr>orders = [], written = [csv_header]\<rparr> input_file"

subsection \<open>Vocabulary of the specification\<close>

text \<open>The message decoded from a raw line of the file.\<close>

definition message_of :: "string \<Rightarrow> dict" where
  "message_of raw_line = split_fix_message (rstrip_nl raw_line)"

text \<open>A new-order message: its type field \<^verbatim>\<open>35\<close> is \<^verbatim>\<open>D\<close>.\<close>

definition is_new_order :: "dict \<Rightarrow> bool" where
  "is_new_order message = (get message ''35'' = Some ''D'')"

text \<open>
  A qualifying execution report: type \<^verbatim>\<open>8\<close>, execution type \<^verbatim>\<open>150\<close> a fill, order
  status \<^verbatim>\<open>39\<close> filled, order type \<^verbatim>\<open>40\<close> limit.
\<close>

definition qualifying :: "dict \<Rightarrow> bool" where
  "qualifying message =
     (get message ''35'' = Some ''8'' \<and> get message ''150'' = Some ''2'' \<and>
      get message ''39'' = Some ''2'' \<and> get message ''40'' = Some ''2'')"

text \<open>The store holds a pending order (a non-empty dictionary) under the identifier.\<close>

definition pending :: "state \<Rightarrow> string \<Rightarrow> bool" where
  "pending st k = (case get (orders st) k of None \<Rightarrow> False | Some order \<Rightarrow> order \<noteq> [])"

text \<open>
  A matched fill: a qualifying execution report whose correlation identifier \<^verbatim>\<open>11\<close> is
  not empty and has a pending order in the store.
\<close>

definition matched_fill :: "state \<Rightarrow> dict \<Rightarrow> bool" where
  "matched_fill st message =
     (qualifying message \<and>
      (case get message ''11'' of None \<Rightarrow> False | Some k \<Rightarrow> k \<noteq> [] \<and> pending st k))"

text \<open>
  The rows a message contributes to the output in a state: the row of the fill when it is a
  matched fill, none otherwise.
\<close>

definition emitted :: "state \<Rightarrow> dict \<Rightarrow> row list" where
  "emitted st message =
     (case get message ''11'' of
        None \<Rightarrow> []
      | Some k \<Rightarrow>
          (case get (orders st) k of
             None \<Rightarrow> []
           | Some order \<Rightarrow>
               if matched_fill st message then [fill_row k order message] else []))"

text \<open>The definitions that unfold when a concrete input is evaluated.\<close>

lemmas run_defs =
  process_fix_file_def process_line_def process_message_def message_of_def
  split_fix_message_def fix_parts_def SOH_CHARS_def strip_def rstrip_nl_def is_space_def
  split_ws_def split_eq1_def get_def get_default_def py_or_def pending_order_def
  fill_row_def csv_header_def is_new_order_def qualifying_def pending_def matched_fill_def
  emitted_def

section \<open>The loop body, case by case\<close>

lemma split_fix_message_empty: "split_fix_message [] = []"
  by (simp add: split_fix_message_def fix_parts_def SOH_CHARS_def strip_def split_ws_def)

lemma process_message_no_type: "get message ''35'' = None \<Longrightarrow> process_message st message = st"
  by (simp add: process_message_def)

lemma process_line_message: "process_line st raw_line = process_message st (message_of raw_line)"
  by (simp add: process_line_def message_of_def Let_def split_fix_message_empty
      process_message_no_type get_def)

lemma process_message_new_order:
  assumes "get message ''35'' = Some ''D''" and "get message ''11'' = Some k" and "k \<noteq> []"
  shows "process_message st message =
         st\<lparr>orders := AList.update k (pending_order k message) (orders st)\<rparr>"
  using assms by (simp add: process_message_def)

lemma process_message_fill:
  assumes "qualifying message" and "get message ''11'' = Some k" and "k \<noteq> []"
    and "get (orders st) k = Some order" and "order \<noteq> []"
  shows "process_message st message = st\<lparr>written := written st @ [fill_row k order message]\<rparr>"
  using assms by (simp add: process_message_def qualifying_def)

lemma process_message_not_qualifying:
  assumes "get message ''35'' = Some ''8''" and "\<not> qualifying message"
  shows "process_message st message = st"
  using assms by (auto simp: process_message_def qualifying_def)

lemma process_message_no_id:
  assumes "get message ''11'' = None \<or> get message ''11'' = Some []"
  shows "process_message st message = st"
  using assms by (auto simp: process_message_def Let_def)

lemma process_message_not_pending:
  assumes "get message ''35'' = Some ''8''" and "get message ''11'' = Some k"
    and "\<not> pending st k"
  shows "process_message st message = st"
  using assms by (auto simp: process_message_def pending_def split: option.splits)

lemma process_message_other_type:
  assumes "get message ''35'' \<noteq> Some ''D''" and "get message ''35'' \<noteq> Some ''8''"
  shows "process_message st message = st"
  using assms by (simp add: process_message_def)

text \<open>What a message can do to the rows written: nothing, or one row of a matched fill.\<close>

lemma process_message_written:
  "written (process_message st message) =
     (if matched_fill st message
      then written st @ [fill_row (the (get message ''11''))
                           (the (get (orders st) (the (get message ''11'')))) message]
      else written st)"
  by (auto simp: process_message_def matched_fill_def qualifying_def pending_def Let_def
      split: option.splits)

text \<open>What a message can do to the store: nothing, or one new-order capture.\<close>

lemma process_message_orders:
  "orders (process_message st message) =
     (if is_new_order message \<and> get message ''11'' \<noteq> None \<and> get message ''11'' \<noteq> Some []
      then AList.update (the (get message ''11''))
             (pending_order (the (get message ''11'')) message) (orders st)
      else orders st)"
  by (auto simp: process_message_def is_new_order_def Let_def split: option.splits)

lemma process_lines_snoc:
  "process_lines st (ls @ [l]) = process_line (process_lines st ls) l"
  by (induction ls arbitrary: st) simp_all

lemma process_fix_file_snoc:
  "process_fix_file (ls @ [l]) = process_message (process_fix_file ls) (message_of l)"
  by (simp add: process_fix_file_def process_lines_snoc process_line_message)

section \<open>The tokenizer and the decoder\<close>

lemma split_eq1_first:
  "CHR ''='' \<notin> set tag \<Longrightarrow> split_eq1 (tag @ CHR ''='' # val) = (tag, val)"
  by (induction tag) (auto simp: split_eq1_def)

lemma decode_fields_none:
  "\<forall>part\<in>set parts. CHR ''='' \<notin> set part \<Longrightarrow> decode_fields parts fs = fs"
  by (induction parts arbitrary: fs) simp_all

lemma split_ws_from_leading:
  "split_ws_from [] (dropWhile is_space s) = split_ws_from [] s"
  by (induction s) simp_all

lemma split_ws_from_spaces:
  "\<forall>c\<in>set ws. is_space c \<Longrightarrow> split_ws_from cur ws = (if cur = [] then [] else [cur])"
  by (induction ws arbitrary: cur) simp_all

lemma split_ws_from_trailing:
  "\<forall>c\<in>set ws. is_space c \<Longrightarrow> split_ws_from cur (s @ ws) = split_ws_from cur s"
  by (induction s arbitrary: cur) (simp_all add: split_ws_from_spaces)

lemma rstrip_decompose:
  "s = rev (dropWhile P (rev s)) @ rev (takeWhile P (rev s))"
proof -
  have "rev s = takeWhile P (rev s) @ dropWhile P (rev s)"
    by simp
  then have "rev (rev s) = rev (takeWhile P (rev s) @ dropWhile P (rev s))"
    by (rule arg_cong)
  then show ?thesis
    by (simp only: rev_rev_ident rev_append)
qed

text \<open>Trimming a string does not change its whitespace-separated tokens.\<close>

lemma split_ws_strip: "split_ws (strip s) = split_ws s"
proof -
  let ?t = "dropWhile is_space s"
  have spaces: "\<forall>c\<in>set (rev (takeWhile is_space (rev ?t))). is_space c"
    by (auto dest: set_takeWhileD)
  have "split_ws_from [] ?t
        = split_ws_from [] (rev (dropWhile is_space (rev ?t)) @ rev (takeWhile is_space (rev ?t)))"
    by (simp only: rstrip_decompose [symmetric])
  also have "\<dots> = split_ws_from [] (rev (dropWhile is_space (rev ?t)))"
    using spaces by (rule split_ws_from_trailing)
  finally show ?thesis
    by (simp add: split_ws_def strip_def split_ws_from_leading)
qed

lemma find_separator_SOH:
  "find_separator SOH_CHARS line =
     (if CHR 0x01 \<in> set line then Some (CHR 0x01)
      else if CHR ''|'' \<in> set line then Some CHR ''|'' else None)"
  by (simp add: SOH_CHARS_def)

text \<open>
  The pieces of \<open>split_on\<close> are free of the separator, and joining them with the separator
  gives the string back: \<open>split_on\<close> cuts at every occurrence and nowhere else.
\<close>

lemma split_on_nonempty: "split_on sep s \<noteq> []"
  by (induction s) (simp_all split: list.splits)

lemma split_on_pieces: "piece \<in> set (split_on sep s) \<Longrightarrow> sep \<notin> set piece"
proof (induction s arbitrary: piece)
  case Nil
  then show ?case by simp
next
  case (Cons c s)
  show ?case
  proof (cases "c = sep")
    case True
    with Cons show ?thesis by auto
  next
    case False
    obtain p ps where ps: "split_on sep s = p # ps"
      using split_on_nonempty [of sep s] by (cases "split_on sep s") auto
    with False Cons.prems have "piece = c # p \<or> piece \<in> set ps"
      by simp
    with False ps Cons.IH show ?thesis
      by auto
  qed
qed

lemma join_with_Cons: "join_with sep ((c # piece) # pieces) = c # join_with sep (piece # pieces)"
  by (cases pieces) simp_all

lemma join_with_split_on: "join_with sep (split_on sep s) = s"
proof (induction s)
  case Nil
  show ?case
    by simp
next
  case (Cons c s)
  obtain piece pieces where "split_on sep s = piece # pieces"
    using split_on_nonempty [of sep s] by (cases "split_on sep s") auto
  with Cons show ?case
    by (simp add: join_with_Cons)
qed

text \<open>
  The tokens of \<open>split_ws\<close> are non-empty, free of whitespace, and together they are the
  non-whitespace characters of the string in order.
\<close>

lemma split_ws_from_tokens:
  "token \<in> set (split_ws_from cur s) \<Longrightarrow> \<forall>c\<in>set cur. \<not> is_space c \<Longrightarrow>
   token \<noteq> [] \<and> (\<forall>c\<in>set token. \<not> is_space c)"
proof (induction s arbitrary: cur)
  case Nil
  then show ?case
    by (cases "cur = []") simp_all
next
  case (Cons c cs)
  show ?case
  proof (cases "is_space c")
    case True
    note sp = this
    show ?thesis
    proof (cases "cur = []")
      case True
      with sp Cons.prems have "token \<in> set (split_ws_from [] cs)"
        by simp
      then show ?thesis
        by (rule Cons.IH) simp
    next
      case False
      with sp Cons.prems have "token = cur \<or> token \<in> set (split_ws_from [] cs)"
        by simp
      then show ?thesis
      proof
        assume "token = cur"
        with False Cons.prems(2) show ?thesis
          by simp
      next
        assume "token \<in> set (split_ws_from [] cs)"
        then show ?thesis
          by (rule Cons.IH) simp
      qed
    qed
  next
    case False
    with Cons.prems have "token \<in> set (split_ws_from (cur @ [c]) cs)"
      by simp
    moreover from False Cons.prems(2) have "\<forall>c'\<in>set (cur @ [c]). \<not> is_space c'"
      by simp
    ultimately show ?thesis
      by (rule Cons.IH)
  qed
qed

lemma split_ws_from_concat:
  "concat (split_ws_from cur s) = cur @ filter (\<lambda>c. \<not> is_space c) s"
  by (induction s arbitrary: cur) simp_all

lemma split_ws_tokens:
  "token \<in> set (split_ws s) \<Longrightarrow> token \<noteq> [] \<and> (\<forall>c\<in>set token. \<not> is_space c)"
  using split_ws_from_tokens [of token "[]" s] by (simp add: split_ws_def)

lemma split_ws_concat: "concat (split_ws s) = filter (\<lambda>c. \<not> is_space c) s"
  by (simp add: split_ws_def split_ws_from_concat)

text \<open>
  Claim C2, as the program has it. The separator is chosen by priority, not by frequency:
  a line that contains \<^verbatim>\<open>\x01\<close> is split on \<^verbatim>\<open>\x01\<close> whatever else it contains; a line
  without \<^verbatim>\<open>\x01\<close> that contains \<^verbatim>\<open>|\<close> is split on \<^verbatim>\<open>|\<close>; a line with neither is split on
  runs of whitespace. What is split on the separator is the line with its leading and
  trailing whitespace removed (\<^verbatim>\<open>line.strip()\<close>); for the whitespace split the trimming
  makes no difference.
\<close>

theorem tokenizer_priority:
  "(CHR 0x01 \<in> set line \<longrightarrow> fix_parts line = split_on (CHR 0x01) (strip line))
   \<and> (CHR 0x01 \<notin> set line \<and> CHR ''|'' \<in> set line \<longrightarrow>
        fix_parts line = split_on CHR ''|'' (strip line))
   \<and> (CHR 0x01 \<notin> set line \<and> CHR ''|'' \<notin> set line \<longrightarrow> fix_parts line = split_ws line)"
  by (simp add: fix_parts_def find_separator_SOH split_ws_strip)

text \<open>
  A line with one \<^verbatim>\<open>\x01\<close> and three \<^verbatim>\<open>|\<close> is split on the \<^verbatim>\<open>\x01\<close>; a line with \<^verbatim>\<open>|\<close>
  and blanks around it is trimmed and split on \<^verbatim>\<open>|\<close>; a line with neither is split on its
  runs of blanks and tabs.
\<close>

theorem tokenizer_priority_witness:
  "CHR 0x01 \<in> set (''A=1|B=2'' @ [CHR 0x01] @ ''C=3|D=4|E=5'')
   \<and> fix_parts (''A=1|B=2'' @ [CHR 0x01] @ ''C=3|D=4|E=5'') = [''A=1|B=2'', ''C=3|D=4|E=5'']
   \<and> CHR 0x01 \<notin> set ''  A=1|B 2|  '' \<and> CHR ''|'' \<in> set ''  A=1|B 2|  ''
   \<and> fix_parts ''  A=1|B 2|  '' = [''A=1'', ''B 2'', []]
   \<and> CHR 0x01 \<notin> set ('' A=1  B=2'' @ [CHR 0x09] @ ''C=3 '')
   \<and> CHR ''|'' \<notin> set ('' A=1  B=2'' @ [CHR 0x09] @ ''C=3 '')
   \<and> fix_parts ('' A=1  B=2'' @ [CHR 0x09] @ ''C=3 '') = [''A=1'', ''B=2'', ''C=3'']"
proof -
  let ?soh = "''A=1|B=2'' @ [CHR 0x01] @ ''C=3|D=4|E=5''"
  let ?pipe = "''  A=1|B 2|  ''"
  let ?ws = "'' A=1  B=2'' @ [CHR 0x09] @ ''C=3 ''"
  have soh: "CHR 0x01 \<in> set ?soh"
    by simp
  have pipe: "CHR 0x01 \<notin> set ?pipe \<and> CHR ''|'' \<in> set ?pipe"
    by simp
  have ws: "CHR 0x01 \<notin> set ?ws \<and> CHR ''|'' \<notin> set ?ws"
    by simp
  have "fix_parts ?soh = split_on (CHR 0x01) (strip ?soh)"
    using tokenizer_priority soh by blast
  then have 1: "fix_parts ?soh = [''A=1|B=2'', ''C=3|D=4|E=5'']"
    by (simp add: strip_def is_space_def)
  have "fix_parts ?pipe = split_on CHR ''|'' (strip ?pipe)"
    using tokenizer_priority pipe by blast
  then have 2: "fix_parts ?pipe = [''A=1'', ''B 2'', []]"
    by (simp add: strip_def is_space_def)
  have "fix_parts ?ws = split_ws ?ws"
    using tokenizer_priority ws by blast
  then have 3: "fix_parts ?ws = [''A=1'', ''B=2'', ''C=3'']"
    by (simp add: split_ws_def is_space_def)
  from soh pipe ws 1 2 3 show ?thesis
    by simp
qed

text \<open>
  Claim C2 as the specification words it has the line itself split on the separator. The
  line \<^verbatim>\<open> 35=D|11=A1\<close>, with a leading blank, is a counterexample: splitting the line on
  \<^verbatim>\<open>|\<close> gives the first token \<^verbatim>\<open> 35=D\<close>, the program's first token is \<^verbatim>\<open>35=D\<close>, and so
  the decoded message has the type field \<^verbatim>\<open>35\<close>.
\<close>

theorem untrimmed_split_counterexample:
  "split_on CHR ''|'' '' 35=D|11=A1'' = ['' 35=D'', ''11=A1'']
   \<and> fix_parts '' 35=D|11=A1'' = [''35=D'', ''11=A1'']
   \<and> fix_parts '' 35=D|11=A1'' \<noteq> split_on CHR ''|'' '' 35=D|11=A1''
   \<and> split_fix_message '' 35=D|11=A1'' = [(''35'', ''D''), (''11'', ''A1'')]"
  by (simp add: split_fix_message_def fix_parts_def SOH_CHARS_def strip_def is_space_def
      split_eq1_def)

text \<open>
  Claim C3. The decoding loop, token by token: an empty token and a token without \<^verbatim>\<open>=\<close>
  leave the dictionary as it is; a token \<open>tag\<close>\<^verbatim>\<open>=\<close>\<open>val\<close>, where \<open>tag\<close> is any string
  without \<^verbatim>\<open>=\<close> (empty or not, numeric or not) and \<open>val\<close> any string (with or without
  \<^verbatim>\<open>=\<close>), stores \<open>val\<close> under \<open>tag\<close>. A line without the separators \<^verbatim>\<open>\x01\<close> and \<^verbatim>\<open>|\<close>
  none of whose whitespace-separated tokens has a \<^verbatim>\<open>=\<close> decodes to the empty dictionary.
\<close>

theorem decoder_rules:
  "decode_fields [] fs = fs
   \<and> (part = [] \<or> CHR ''='' \<notin> set part \<longrightarrow>
        decode_fields (part # parts) fs = decode_fields parts fs)
   \<and> (CHR ''='' \<notin> set tag \<longrightarrow>
        decode_fields ((tag @ CHR ''='' # val) # parts) fs
        = decode_fields parts (AList.update tag val fs))
   \<and> (CHR 0x01 \<notin> set line \<and> CHR ''|'' \<notin> set line \<and>
      (\<forall>token\<in>set (split_ws line). CHR ''='' \<notin> set token) \<longrightarrow>
        split_fix_message line = [])"
proof (intro conjI impI)
  show "decode_fields [] fs = fs"
    by simp
  show "decode_fields (part # parts) fs = decode_fields parts fs"
    if "part = [] \<or> CHR ''='' \<notin> set part"
    using that by auto
  show "decode_fields ((tag @ CHR ''='' # val) # parts) fs
        = decode_fields parts (AList.update tag val fs)"
    if "CHR ''='' \<notin> set tag"
    using that by (simp add: split_eq1_first)
  show "split_fix_message line = []"
    if "CHR 0x01 \<notin> set line \<and> CHR ''|'' \<notin> set line \<and>
        (\<forall>token\<in>set (split_ws line). CHR ''='' \<notin> set token)"
  proof -
    from that have "fix_parts line = split_ws line"
      by (simp add: fix_parts_def find_separator_SOH split_ws_strip)
    with that show ?thesis
      by (simp add: split_fix_message_def decode_fields_none)
  qed
qed

text \<open>
  The tokens \<^verbatim>\<open>55=a=b\<close> and \<^verbatim>\<open>=q\<close> after an empty token and a token without \<^verbatim>\<open>=\<close>: the
  value of \<^verbatim>\<open>55\<close> is \<^verbatim>\<open>a=b\<close>, and the empty identifier is stored like any other. The
  line \<^verbatim>\<open>hello  world\<close> decodes to the empty dictionary.
\<close>

theorem decoder_rules_witness:
  "decode_fields [[], ''noise'', ''55=a=b'', ''=q''] [] = [(''55'', ''a=b''), ([], ''q'')]
   \<and> CHR 0x01 \<notin> set ''hello  world'' \<and> CHR ''|'' \<notin> set ''hello  world''
   \<and> split_ws ''hello  world'' = [''hello'', ''world'']
   \<and> split_fix_message ''hello  world'' = []"
proof -
  have 1: "decode_fields [[], ''noise'', ''55=a=b'', ''=q''] []
           = decode_fields [''noise'', ''55=a=b'', ''=q''] []"
    using decoder_rules [of "[]" "[]" "[''noise'', ''55=a=b'', ''=q'']"] by simp
  have 2: "decode_fields [''noise'', ''55=a=b'', ''=q''] [] = decode_fields [''55=a=b'', ''=q''] []"
    using decoder_rules [of "[]" "''noise''" "[''55=a=b'', ''=q'']"] by simp
  have 3: "decode_fields [''55=a=b'', ''=q''] [] = decode_fields [''=q''] [(''55'', ''a=b'')]"
    using decoder_rules [of "[]" _ "[''=q'']" "''55''" "''a=b''"] by simp
  have 4: "decode_fields [''=q''] [(''55'', ''a=b'')] = decode_fields [] [(''55'', ''a=b''), ([], ''q'')]"
    using decoder_rules [of "[(''55'', ''a=b'')]" _ "[]" "[]" "''q''"] by simp
  have 5: "decode_fields [] [(''55'', ''a=b''), ([], ''q'')] = [(''55'', ''a=b''), ([], ''q'')]"
    using decoder_rules [of "[(''55'', ''a=b''), ([], ''q'')]"] by simp
  have tokens: "split_ws ''hello  world'' = [''hello'', ''world'']"
    by (simp add: split_ws_def is_space_def)
  have h: "CHR 0x01 \<notin> set ''hello  world'' \<and> CHR ''|'' \<notin> set ''hello  world'' \<and>
           (\<forall>token\<in>set (split_ws ''hello  world''). CHR ''='' \<notin> set token)"
    unfolding tokens by simp
  with decoder_rules have "split_fix_message ''hello  world'' = []"
    by blast
  with 1 2 3 4 5 tokens h show ?thesis
    by simp
qed

section \<open>The decoder on the two example lines\<close>

text \<open>
  Claim C9. Decoding the line \<^verbatim>\<open>A=1\x01B=2\x01\<close> and decoding the line \<^verbatim>\<open>A=1|B=2|\<close> give
  the same dictionary: \<^verbatim>\<open>A\<close> maps to \<^verbatim>\<open>1\<close> and \<^verbatim>\<open>B\<close> to \<^verbatim>\<open>2\<close>, whichever of the two
  separators delimits the line.
\<close>

theorem separator_independence:
  "split_fix_message (''A=1'' @ [CHR 0x01] @ ''B=2'' @ [CHR 0x01]) = split_fix_message ''A=1|B=2|''
   \<and> split_fix_message ''A=1|B=2|'' = [(''A'', ''1''), (''B'', ''2'')]"
  by (simp add: split_fix_message_def fix_parts_def SOH_CHARS_def strip_def is_space_def
      split_eq1_def)

section \<open>Execution reports that do not qualify\<close>

text \<open>
  Claim C4. A message makes the writer emit a row only if it is an execution report
  (field \<^verbatim>\<open>35\<close> is \<^verbatim>\<open>8\<close>) whose fields \<^verbatim>\<open>150\<close>, \<^verbatim>\<open>39\<close> and \<^verbatim>\<open>40\<close> all equal \<^verbatim>\<open>2\<close>. An
  execution report in which one of the three differs (or is missing) leaves the whole state
  as it was: no row is written and the store of pending orders is unchanged. The loop body
  is a total function of the state and the message, so there is no error to raise.
\<close>

theorem disqualified_execution_report:
  "(written (process_message st message) \<noteq> written st \<longrightarrow>
      get message ''35'' = Some ''8'' \<and> get message ''150'' = Some ''2'' \<and>
      get message ''39'' = Some ''2'' \<and> get message ''40'' = Some ''2'')
   \<and> (get message ''35'' = Some ''8'' \<and>
        (get message ''150'' \<noteq> Some ''2'' \<or> get message ''39'' \<noteq> Some ''2'' \<or>
         get message ''40'' \<noteq> Some ''2'') \<longrightarrow>
      process_message st message = st)"
proof -
  have emitted: "get message ''35'' = Some ''8'' \<and> get message ''150'' = Some ''2'' \<and>
      get message ''39'' = Some ''2'' \<and> get message ''40'' = Some ''2''"
    if "written (process_message st message) \<noteq> written st"
  proof -
    from that have "matched_fill st message"
      by (simp add: process_message_written split: if_splits)
    then show ?thesis
      by (simp add: matched_fill_def qualifying_def)
  qed
  have dropped: "process_message st message = st"
    if "get message ''35'' = Some ''8'' \<and>
        (get message ''150'' \<noteq> Some ''2'' \<or> get message ''39'' \<noteq> Some ''2'' \<or>
         get message ''40'' \<noteq> Some ''2'')"
    using that by (intro process_message_not_qualifying) (auto simp: qualifying_def)
  from emitted dropped show ?thesis by blast
qed

text \<open>
  After the order \<^verbatim>\<open>A1\<close> was captured, an execution report for \<^verbatim>\<open>A1\<close> whose execution
  type \<^verbatim>\<open>150\<close> is \<^verbatim>\<open>1\<close> changes nothing; the report with \<^verbatim>\<open>150=2\<close> writes a row, and its
  three fields are \<^verbatim>\<open>2\<close>.
\<close>

theorem disqualified_execution_report_witness:
  "get (message_of ''35=8|11=A1|150=1|39=2|40=2|6=10.40|'') ''35'' = Some ''8''
   \<and> get (message_of ''35=8|11=A1|150=1|39=2|40=2|6=10.40|'') ''150'' \<noteq> Some ''2''
   \<and> process_message
        (process_fix_file [''35=D|11=A1|60=093000|55=XYZ|54=1|38=100|44=10.50|''])
        (message_of ''35=8|11=A1|150=1|39=2|40=2|6=10.40|'')
      = process_fix_file [''35=D|11=A1|60=093000|55=XYZ|54=1|38=100|44=10.50|'']
   \<and> written (process_message
        (process_fix_file [''35=D|11=A1|60=093000|55=XYZ|54=1|38=100|44=10.50|''])
        (message_of ''35=8|11=A1|150=2|39=2|40=2|6=10.40|''))
      \<noteq> written (process_fix_file [''35=D|11=A1|60=093000|55=XYZ|54=1|38=100|44=10.50|''])
   \<and> get (message_of ''35=8|11=A1|150=2|39=2|40=2|6=10.40|'') ''150'' = Some ''2''
   \<and> get (message_of ''35=8|11=A1|150=2|39=2|40=2|6=10.40|'') ''39'' = Some ''2''
   \<and> get (message_of ''35=8|11=A1|150=2|39=2|40=2|6=10.40|'') ''40'' = Some ''2''"
proof -
  let ?st = "process_fix_file [''35=D|11=A1|60=093000|55=XYZ|54=1|38=100|44=10.50|'']"
  let ?m = "message_of ''35=8|11=A1|150=1|39=2|40=2|6=10.40|''"
  let ?f = "message_of ''35=8|11=A1|150=2|39=2|40=2|6=10.40|''"
  have m: "?m = [(''35'', ''8''), (''11'', ''A1''), (''150'', ''1''), (''39'', ''2''),
                 (''40'', ''2''), (''6'', ''10.40'')]"
    by (simp add: run_defs)
  have h: "get ?m ''35'' = Some ''8'' \<and>
        (get ?m ''150'' \<noteq> Some ''2'' \<or> get ?m ''39'' \<noteq> Some ''2'' \<or>
         get ?m ''40'' \<noteq> Some ''2'')"
    unfolding m by (simp add: get_def)
  with disqualified_execution_report [of ?st ?m] have dropped: "process_message ?st ?m = ?st"
    by blast
  have row: "written (process_message ?st ?f) \<noteq> written ?st"
    by (simp add: run_defs)
  with disqualified_execution_report [of ?st ?f]
  have fill: "get ?f ''150'' = Some ''2'' \<and> get ?f ''39'' = Some ''2'' \<and> get ?f ''40'' = Some ''2''"
    by blast
  have "get ?m ''35'' = Some ''8''" "get ?m ''150'' \<noteq> Some ''2''"
    unfolding m by (simp_all add: get_def)
  with dropped row fill show ?thesis
    by simp
qed

section \<open>The cells of a matched row\<close>

lemma py_or_case:
  "py_or (get_default order tag []) (get_default message tag []) =
     (case get order tag of
        Some (c # cs) \<Rightarrow> c # cs
      | _ \<Rightarrow> (case get message tag of None \<Rightarrow> [] | Some v \<Rightarrow> v))"
  by (simp add: get_default_def get_def py_or_def split: option.splits list.splits)

lemma fill_row_length: "length (fill_row k order message) = 9"
  by (simp add: fill_row_def)

lemma fill_row_plain_cells:
  "fill_row k order message ! 0 = k"
  "fill_row k order message ! 1 = (case get order ''60'' of None \<Rightarrow> [] | Some v \<Rightarrow> v)"
  "fill_row k order message ! 2 = (case get message ''60'' of None \<Rightarrow> [] | Some v \<Rightarrow> v)"
  "fill_row k order message ! 7 = (case get message ''6'' of None \<Rightarrow> [] | Some v \<Rightarrow> v)"
  "fill_row k order message ! 8 = (case get message ''30'' of None \<Rightarrow> [] | Some v \<Rightarrow> v)"
  by (simp_all add: fill_row_def get_default_def get_def)

lemma fill_row_fallback_cells:
  "fill_row k order message ! 3 =
     (case get order ''55'' of Some (c # cs) \<Rightarrow> c # cs
      | _ \<Rightarrow> (case get message ''55'' of None \<Rightarrow> [] | Some v \<Rightarrow> v))"
  "fill_row k order message ! 4 =
     (case get order ''54'' of Some (c # cs) \<Rightarrow> c # cs
      | _ \<Rightarrow> (case get message ''54'' of None \<Rightarrow> [] | Some v \<Rightarrow> v))"
  "fill_row k order message ! 5 =
     (case get order ''38'' of Some (c # cs) \<Rightarrow> c # cs
      | _ \<Rightarrow> (case get message ''38'' of None \<Rightarrow> [] | Some v \<Rightarrow> v))"
  "fill_row k order message ! 6 =
     (case get order ''44'' of Some (c # cs) \<Rightarrow> c # cs
      | _ \<Rightarrow> (case get message ''44'' of None \<Rightarrow> [] | Some v \<Rightarrow> v))"
  by (simp_all add: fill_row_def py_or_case)

text \<open>
  Claim C6. A qualifying execution report whose identifier \<open>k\<close> has the pending order
  \<open>order\<close> in the store appends one row of nine cells. Cell 0 is \<open>k\<close>. Cell 1, the order
  timestamp, is field \<^verbatim>\<open>60\<close> of the pending order alone. Cells 3 to 6 (symbol \<^verbatim>\<open>55\<close>, side
  \<^verbatim>\<open>54\<close>, quantity \<^verbatim>\<open>38\<close>, limit price \<^verbatim>\<open>44\<close>) are the pending order's value when it is
  not empty, and otherwise the execution message's value. Cells 2, 7 and 8 (execution
  timestamp \<^verbatim>\<open>60\<close>, average price \<^verbatim>\<open>6\<close>, last market \<^verbatim>\<open>30\<close>) are the execution message's
  value alone. A value the message lacks is the empty string.
\<close>

theorem matched_row_cells:
  assumes "qualifying message" and "get message ''11'' = Some k" and "k \<noteq> []"
    and "get (orders st) k = Some order" and "order \<noteq> []"
  shows "\<exists>row. written (process_message st message) = written st @ [row]
           \<and> length row = 9
           \<and> row ! 0 = k
           \<and> row ! 1 = (case get order ''60'' of None \<Rightarrow> [] | Some v \<Rightarrow> v)
           \<and> row ! 2 = (case get message ''60'' of None \<Rightarrow> [] | Some v \<Rightarrow> v)
           \<and> row ! 3 = (case get order ''55'' of Some (c # cs) \<Rightarrow> c # cs
                        | _ \<Rightarrow> (case get message ''55'' of None \<Rightarrow> [] | Some v \<Rightarrow> v))
           \<and> row ! 4 = (case get order ''54'' of Some (c # cs) \<Rightarrow> c # cs
                        | _ \<Rightarrow> (case get message ''54'' of None \<Rightarrow> [] | Some v \<Rightarrow> v))
           \<and> row ! 5 = (case get order ''38'' of Some (c # cs) \<Rightarrow> c # cs
                        | _ \<Rightarrow> (case get message ''38'' of None \<Rightarrow> [] | Some v \<Rightarrow> v))
           \<and> row ! 6 = (case get order ''44'' of Some (c # cs) \<Rightarrow> c # cs
                        | _ \<Rightarrow> (case get message ''44'' of None \<Rightarrow> [] | Some v \<Rightarrow> v))
           \<and> row ! 7 = (case get message ''6'' of None \<Rightarrow> [] | Some v \<Rightarrow> v)
           \<and> row ! 8 = (case get message ''30'' of None \<Rightarrow> [] | Some v \<Rightarrow> v)"
proof -
  have w: "written (process_message st message) = written st @ [fill_row k order message]"
    using assms by (simp add: process_message_fill)
  show ?thesis
    by (rule exI [of _ "fill_row k order message"])
       (simp only: w fill_row_length fill_row_plain_cells fill_row_fallback_cells simp_thms)
qed

text \<open>
  The pending order \<^verbatim>\<open>A1\<close> has a symbol and a side but an empty quantity and no usable
  price; the execution report brings its own symbol, quantity and price. The row takes the
  symbol and the side from the order, the quantity and the price from the report.
\<close>

theorem matched_row_cells_witness:
  "qualifying [(''35'', ''8''), (''11'', ''A1''), (''60'', ''093001''), (''150'', ''2''),
               (''39'', ''2''), (''40'', ''2''), (''55'', ''ABC''), (''38'', ''70''),
               (''44'', ''9.75''), (''6'', ''10.40'')]
   \<and> get (orders \<lparr>orders = [(''A1'', pending_order ''A1''
              [(''35'', ''D''), (''11'', ''A1''), (''60'', ''093000''), (''55'', ''XYZ''),
               (''54'', ''1''), (''38'', [])])], written = [csv_header]\<rparr>) ''A1''
       = Some [(''11'', ''A1''), (''60'', ''093000''), (''55'', ''XYZ''), (''54'', ''1''),
               (''38'', []), (''44'', [])]
   \<and> written (process_message
        \<lparr>orders = [(''A1'', pending_order ''A1''
              [(''35'', ''D''), (''11'', ''A1''), (''60'', ''093000''), (''55'', ''XYZ''),
               (''54'', ''1''), (''38'', [])])], written = [csv_header]\<rparr>
        [(''35'', ''8''), (''11'', ''A1''), (''60'', ''093001''), (''150'', ''2''),
         (''39'', ''2''), (''40'', ''2''), (''55'', ''ABC''), (''38'', ''70''),
         (''44'', ''9.75''), (''6'', ''10.40'')])
      = [csv_header,
         [''A1'', ''093000'', ''093001'', ''XYZ'', ''1'', ''70'', ''9.75'', ''10.40'', []]]"
proof -
  let ?m = "[(''35'', ''8''), (''11'', ''A1''), (''60'', ''093001''), (''150'', ''2''),
             (''39'', ''2''), (''40'', ''2''), (''55'', ''ABC''), (''38'', ''70''),
             (''44'', ''9.75''), (''6'', ''10.40'')]"
  let ?o = "[(''11'', ''A1''), (''60'', ''093000''), (''55'', ''XYZ''), (''54'', ''1''),
             (''38'', []), (''44'', [])]"
  let ?st = "\<lparr>orders = [(''A1'', pending_order ''A1''
              [(''35'', ''D''), (''11'', ''A1''), (''60'', ''093000''), (''55'', ''XYZ''),
               (''54'', ''1''), (''38'', [])])], written = [csv_header]\<rparr>"
  have q: "qualifying ?m"
    by (simp add: qualifying_def get_def)
  have k: "get ?m ''11'' = Some ''A1''"
    by (simp add: get_def)
  have o: "get (orders ?st) ''A1'' = Some ?o"
    by (simp add: get_def pending_order_def get_default_def)
  from matched_row_cells [OF q k _ o]
  obtain row where row: "written (process_message ?st ?m) = written ?st @ [row]"
    "length row = 9" "row ! 0 = ''A1''" "row ! 1 = ''093000''" "row ! 2 = ''093001''"
    "row ! 3 = ''XYZ''" "row ! 4 = ''1''" "row ! 5 = ''70''" "row ! 6 = ''9.75''"
    "row ! 7 = ''10.40''" "row ! 8 = []"
    by (auto simp: get_def)
  have "row = [row ! 0, row ! 1, row ! 2, row ! 3, row ! 4, row ! 5, row ! 6, row ! 7, row ! 8]"
    using \<open>length row = 9\<close>
    by (intro nth_equalityI) (auto simp: nth_Cons' less_Suc_eq numeral_eq_Suc)
  with row have "row = [''A1'', ''093000'', ''093001'', ''XYZ'', ''1'', ''70'', ''9.75'', ''10.40'', []]"
    by simp
  with row(1) q o show ?thesis by simp
qed

section \<open>An empty correlation identifier\<close>

text \<open>
  Claim C10. A message whose field \<^verbatim>\<open>11\<close> is present with the empty string as its value
  is treated as a message without field \<^verbatim>\<open>11\<close>: in both cases the loop body returns the
  state it was given. So a new-order message with an empty identifier stores no pending
  order, and a qualifying execution report with an empty identifier writes no row (even
  when the store holds an entry under the empty string). The same holds for the raw line
  the message is decoded from.
\<close>

theorem empty_identifier_as_absent:
  "(get message ''11'' = Some [] \<longrightarrow> process_message st message = st)
   \<and> (get message ''11'' = None \<longrightarrow> process_message st message = st)
   \<and> (get (message_of raw_line) ''11'' = Some [] \<longrightarrow> process_line st raw_line = st)"
  by (simp add: process_message_no_id process_line_message)

text \<open>
  A new-order line and a qualifying execution report, both with \<^verbatim>\<open>11=\<close>: the first stores
  nothing, the second writes nothing although the store has an entry under the empty
  identifier. A new-order line without field \<^verbatim>\<open>11\<close> stores nothing either.
\<close>

theorem empty_identifier_as_absent_witness:
  "is_new_order (message_of ''35=D|11=|55=XYZ|54=1|38=100|44=10.50|'')
   \<and> get (message_of ''35=D|11=|55=XYZ|54=1|38=100|44=10.50|'') ''11'' = Some []
   \<and> orders (process_fix_file [''35=D|11=|55=XYZ|54=1|38=100|44=10.50|'']) = []
   \<and> is_new_order (message_of ''35=D|55=XYZ|54=1|38=100|44=10.50|'')
   \<and> get (message_of ''35=D|55=XYZ|54=1|38=100|44=10.50|'') ''11'' = None
   \<and> process_message \<lparr>orders = [], written = [csv_header]\<rparr>
        (message_of ''35=D|55=XYZ|54=1|38=100|44=10.50|'')
      = \<lparr>orders = [], written = [csv_header]\<rparr>
   \<and> qualifying (message_of ''35=8|11=|150=2|39=2|40=2|6=10.40|'')
   \<and> get (message_of ''35=8|11=|150=2|39=2|40=2|6=10.40|'') ''11'' = Some []
   \<and> process_line \<lparr>orders = [([], [(''11'', [])])], written = [csv_header]\<rparr>
        ''35=8|11=|150=2|39=2|40=2|6=10.40|''
      = \<lparr>orders = [([], [(''11'', [])])], written = [csv_header]\<rparr>"
proof -
  let ?new = "''35=D|11=|55=XYZ|54=1|38=100|44=10.50|''"
  let ?bare = "''35=D|55=XYZ|54=1|38=100|44=10.50|''"
  let ?exe = "''35=8|11=|150=2|39=2|40=2|6=10.40|''"
  let ?st = "\<lparr>orders = [([], [(''11'', [])])], written = [csv_header]\<rparr>"
  have new: "message_of ?new = [(''35'', ''D''), (''11'', []), (''55'', ''XYZ''), (''54'', ''1''),
                                (''38'', ''100''), (''44'', ''10.50'')]"
    by (simp add: run_defs)
  have bare: "message_of ?bare = [(''35'', ''D''), (''55'', ''XYZ''), (''54'', ''1''),
                                  (''38'', ''100''), (''44'', ''10.50'')]"
    by (simp add: run_defs)
  have exe: "message_of ?exe = [(''35'', ''8''), (''11'', []), (''150'', ''2''), (''39'', ''2''),
                                (''40'', ''2''), (''6'', ''10.40'')]"
    by (simp add: run_defs)
  have id_new: "get (message_of ?new) ''11'' = Some []"
    unfolding new by (simp add: get_def)
  have id_bare: "get (message_of ?bare) ''11'' = None"
    unfolding bare by (simp add: get_def)
  have id_exe: "get (message_of ?exe) ''11'' = Some []"
    unfolding exe by (simp add: get_def)
  have "process_message \<lparr>orders = [], written = [csv_header]\<rparr> (message_of ?new)
        = \<lparr>orders = [], written = [csv_header]\<rparr>"
    using empty_identifier_as_absent id_new by blast
  then have stored: "orders (process_fix_file [?new]) = []"
    by (simp add: process_fix_file_def process_line_message)
  have absent: "process_message \<lparr>orders = [], written = [csv_header]\<rparr> (message_of ?bare)
        = \<lparr>orders = [], written = [csv_header]\<rparr>"
    using empty_identifier_as_absent id_bare by blast
  have dropped: "process_line ?st ?exe = ?st"
    using empty_identifier_as_absent id_exe by blast
  have "is_new_order (message_of ?new)" "is_new_order (message_of ?bare)"
    "qualifying (message_of ?exe)"
    unfolding new bare exe by (simp_all add: is_new_order_def qualifying_def get_def)
  with id_new id_bare id_exe stored absent dropped show ?thesis by simp
qed

section \<open>The store entry of an identifier\<close>

lemma get_update_same: "get (AList.update k v al) k = Some v"
  by (simp add: get_def update_conv')

lemma get_update_other: "k' \<noteq> k \<Longrightarrow> get (AList.update k' v al) k = get al k"
  by (simp add: get_def update_conv')

lemma pending_order_nonempty: "pending_order k message \<noteq> []"
  by (simp add: pending_order_def)

text \<open>
  One message changes the entry of \<open>k\<close> only when it is a new-order message for \<open>k\<close>, and
  then the entry is what was captured from that message.
\<close>

lemma store_entry_process_message:
  "get (orders (process_message st message)) k =
     (if is_new_order message \<and> get message ''11'' = Some k \<and> k \<noteq> []
      then Some (pending_order k message)
      else get (orders st) k)"
proof (cases "is_new_order message \<and> get message ''11'' \<noteq> None \<and> get message ''11'' \<noteq> Some []")
  case True
  then obtain k' where k': "get message ''11'' = Some k'" and "k' \<noteq> []"
    by auto
  with True have o: "orders (process_message st message)
      = AList.update k' (pending_order k' message) (orders st)"
    by (simp add: process_message_orders)
  show ?thesis
  proof (cases "k' = k")
    case True
    with k' \<open>k' \<noteq> []\<close> \<open>is_new_order message \<and> _\<close> show ?thesis
      by (simp add: o get_update_same)
  next
    case False
    with k' show ?thesis
      by (simp add: o get_update_other)
  qed
next
  case False
  have "orders (process_message st message) = orders st"
    by (simp only: process_message_orders False if_False)
  moreover from False have "\<not> (is_new_order message \<and> get message ''11'' = Some k \<and> k \<noteq> [])"
    by auto
  ultimately show ?thesis
    by auto
qed

text \<open>Lines among which no new-order message names \<open>k\<close> leave the entry of \<open>k\<close> as it was.\<close>

lemma store_entry_kept:
  assumes "\<forall>l\<in>set ls. \<not> (is_new_order (message_of l) \<and> get (message_of l) ''11'' = Some k)"
  shows "get (orders (process_lines st ls)) k = get (orders st) k"
  using assms
proof (induction ls arbitrary: st)
  case Nil
  show ?case
    by simp
next
  case (Cons l ls)
  from Cons.prems have "get (orders (process_line st l)) k = get (orders st) k"
    by (auto simp: process_line_message store_entry_process_message)
  moreover from Cons.prems
  have "get (orders (process_lines (process_line st l) ls)) k = get (orders (process_line st l)) k"
    by (intro Cons.IH) simp
  ultimately show ?case
    by simp
qed

text \<open>
  After any lines, the entry of \<open>k\<close> is the one from before them or the one captured from a
  new-order line for \<open>k\<close> among them.
\<close>

lemma store_entry_origin:
  "get (orders (process_lines st ls)) k = get (orders st) k \<or>
   (\<exists>l\<in>set ls. is_new_order (message_of l) \<and> get (message_of l) ''11'' = Some k \<and>
      get (orders (process_lines st ls)) k = Some (pending_order k (message_of l)))"
proof (induction ls rule: rev_induct)
  case Nil
  show ?case
    by simp
next
  case (snoc l ls)
  let ?before = "process_lines st ls"
  have step: "get (orders (process_lines st (ls @ [l]))) k =
     (if is_new_order (message_of l) \<and> get (message_of l) ''11'' = Some k \<and> k \<noteq> []
      then Some (pending_order k (message_of l))
      else get (orders ?before) k)"
    by (simp add: process_lines_snoc process_line_message store_entry_process_message)
  show ?case
  proof (cases "is_new_order (message_of l) \<and> get (message_of l) ''11'' = Some k \<and> k \<noteq> []")
    case True
    with step have "get (orders (process_lines st (ls @ [l]))) k
                    = Some (pending_order k (message_of l))"
      by simp
    with True show ?thesis
      by auto
  next
    case False
    with step have same: "get (orders (process_lines st (ls @ [l]))) k = get (orders ?before) k"
      by simp
    from snoc.IH show ?thesis
    proof
      assume "get (orders ?before) k = get (orders st) k"
      with same show ?thesis
        by simp
    next
      assume "\<exists>l'\<in>set ls. is_new_order (message_of l') \<and> get (message_of l') ''11'' = Some k \<and>
                get (orders ?before) k = Some (pending_order k (message_of l'))"
      with same show ?thesis
        by auto
    qed
  qed
qed

section \<open>Two new-order messages with one identifier\<close>

text \<open>
  Claim C5. Let \<open>first\<close> and \<open>second\<close> be new-order messages with the same non-empty
  identifier \<open>k\<close>, with any lines \<open>between\<close> them in the stream. After \<open>second\<close> the store
  holds under \<open>k\<close> exactly the fields captured from \<open>second\<close>. A qualifying execution
  report for \<open>k\<close> that follows, at once or after any lines \<open>later\<close> among which no
  new-order message names \<open>k\<close> again, writes a row built from the fields of \<open>second\<close> and
  of the report only: nothing of \<open>first\<close> is in it. When \<open>second\<close> follows \<open>first\<close> at
  once, the state is the one reached without \<open>first\<close>.
\<close>

theorem last_new_order_wins:
  assumes "is_new_order first" and "get first ''11'' = Some k"
    and "is_new_order second" and "get second ''11'' = Some k" and "k \<noteq> []"
  shows "get (orders (process_message (process_lines (process_message st first) between) second)) k
           = Some [(''11'', k),
                   (''60'', get_default second ''60'' []),
                   (''55'', get_default second ''55'' []),
                   (''54'', get_default second ''54'' []),
                   (''38'', get_default second ''38'' []),
                   (''44'', get_default second ''44'' [])]
         \<and> (qualifying report \<and> get report ''11'' = Some k \<longrightarrow>
              written (process_message
                (process_message (process_lines (process_message st first) between) second) report)
              = written (process_lines (process_message st first) between) @
                [[k,
                  get_default second ''60'' [],
                  get_default report ''60'' [],
                  py_or (get_default second ''55'' []) (get_default report ''55'' []),
                  py_or (get_default second ''54'' []) (get_default report ''54'' []),
                  py_or (get_default second ''38'' []) (get_default report ''38'' []),
                  py_or (get_default second ''44'' []) (get_default report ''44'' []),
                  get_default report ''6'' [],
                  get_default report ''30'' []]])
         \<and> (qualifying report \<and> get report ''11'' = Some k \<and>
            (\<forall>l\<in>set later. \<not> (is_new_order (message_of l) \<and> get (message_of l) ''11'' = Some k))
            \<longrightarrow>
              written (process_message
                (process_lines
                   (process_message (process_lines (process_message st first) between) second)
                   later)
                report)
              = written (process_lines
                   (process_message (process_lines (process_message st first) between) second)
                   later) @
                [[k,
                  get_default second ''60'' [],
                  get_default report ''60'' [],
                  py_or (get_default second ''55'' []) (get_default report ''55'' []),
                  py_or (get_default second ''54'' []) (get_default report ''54'' []),
                  py_or (get_default second ''38'' []) (get_default report ''38'' []),
                  py_or (get_default second ''44'' []) (get_default report ''44'' []),
                  get_default report ''6'' [],
                  get_default report ''30'' []]])
         \<and> process_message (process_message st first) second = process_message st second"
proof -
  define mid where "mid = process_lines (process_message st first) between"
  define row where "row = [k,
                  get_default second ''60'' [],
                  get_default report ''60'' [],
                  py_or (get_default second ''55'' []) (get_default report ''55'' []),
                  py_or (get_default second ''54'' []) (get_default report ''54'' []),
                  py_or (get_default second ''38'' []) (get_default report ''38'' []),
                  py_or (get_default second ''44'' []) (get_default report ''44'' []),
                  get_default report ''6'' [],
                  get_default report ''30'' []]"
  have second: "process_message s second
                = s\<lparr>orders := AList.update k (pending_order k second) (orders s)\<rparr>" for s
    using assms by (simp add: process_message_new_order is_new_order_def)
  have first: "process_message s first
               = s\<lparr>orders := AList.update k (pending_order k first) (orders s)\<rparr>" for s
    using assms by (simp add: process_message_new_order is_new_order_def)
  have stored: "get (orders (process_message mid second)) k = Some (pending_order k second)"
    by (simp add: second get_update_same)
  have captured: "get_default (pending_order k second) tag [] = get_default second tag []"
    if "tag \<in> {''60'', ''55'', ''54'', ''38'', ''44''}" for tag
    using that by (auto simp: pending_order_def get_default_def)
  have cells: "fill_row k (pending_order k second) report = row"
    by (simp add: fill_row_def captured row_def)
  have at_once: "written (process_message (process_message mid second) report) = written mid @ [row]"
    if "qualifying report \<and> get report ''11'' = Some k"
    using that assms(5) stored
    by (simp add: process_message_fill [where order = "pending_order k second"]
        pending_order_nonempty second cells)
  have afterwards: "written (process_message (process_lines (process_message mid second) later) report)
             = written (process_lines (process_message mid second) later) @ [row]"
    if "qualifying report \<and> get report ''11'' = Some k \<and>
        (\<forall>l\<in>set later. \<not> (is_new_order (message_of l) \<and> get (message_of l) ''11'' = Some k))"
  proof -
    from that
    have "get (orders (process_lines (process_message mid second) later)) k
          = get (orders (process_message mid second)) k"
      by (intro store_entry_kept) simp
    with stored
    have "get (orders (process_lines (process_message mid second) later)) k
          = Some (pending_order k second)"
      by simp
    with that assms(5) show ?thesis
      by (simp add: process_message_fill [where order = "pending_order k second"]
          pending_order_nonempty cells)
  qed
  have overwrite: "process_message (process_message st first) second = process_message st second"
    by (simp add: first second)
  have entry: "get (orders (process_message mid second)) k
           = Some [(''11'', k),
                   (''60'', get_default second ''60'' []),
                   (''55'', get_default second ''55'' []),
                   (''54'', get_default second ''54'' []),
                   (''38'', get_default second ''38'' []),
                   (''44'', get_default second ''44'' [])]"
    using stored by (simp add: pending_order_def)
  from entry at_once afterwards overwrite show ?thesis
    unfolding mid_def row_def by blast
qed

text \<open>
  Two orders \<^verbatim>\<open>A1\<close>, for \<^verbatim>\<open>XYZ\<close> and then for \<^verbatim>\<open>QQQ\<close>, with a blank line between them,
  and a fill for \<^verbatim>\<open>A1\<close>: the row has the symbol, side, quantity, price and timestamp of
  the second order. It has them as well when an order and a fill for \<^verbatim>\<open>B2\<close> and a blank
  line come before the fill for \<^verbatim>\<open>A1\<close>.
\<close>

theorem last_new_order_wins_witness:
  "written (process_message
     (process_message
        (process_lines
           (process_message \<lparr>orders = [], written = [csv_header]\<rparr>
              [(''35'', ''D''), (''11'', ''A1''), (''60'', ''093000''), (''55'', ''XYZ''),
               (''54'', ''1''), (''38'', ''100''), (''44'', ''10.50'')])
           [[CHR 0x0A]])
        [(''35'', ''D''), (''11'', ''A1''), (''60'', ''093005''), (''55'', ''QQQ''),
         (''54'', ''2''), (''38'', ''300''), (''44'', ''7.25'')])
     [(''35'', ''8''), (''11'', ''A1''), (''60'', ''093009''), (''150'', ''2''),
      (''39'', ''2''), (''40'', ''2''), (''6'', ''7.20''), (''30'', ''NASD'')])
   = [csv_header,
      [''A1'', ''093005'', ''093009'', ''QQQ'', ''2'', ''300'', ''7.25'', ''7.20'', ''NASD'']]
   \<and> written (process_message
     (process_lines
        (process_message
           (process_lines
              (process_message \<lparr>orders = [], written = [csv_header]\<rparr>
                 [(''35'', ''D''), (''11'', ''A1''), (''60'', ''093000''), (''55'', ''XYZ''),
                  (''54'', ''1''), (''38'', ''100''), (''44'', ''10.50'')])
              [[CHR 0x0A]])
           [(''35'', ''D''), (''11'', ''A1''), (''60'', ''093005''), (''55'', ''QQQ''),
            (''54'', ''2''), (''38'', ''300''), (''44'', ''7.25'')])
        [''35=D|11=B2|60=093006|55=ZZZ|54=1|38=5|44=1.00|'',
         ''35=8|11=B2|60=093007|150=2|39=2|40=2|6=0.99|30=ARCA|'',
         [CHR 0x0A]])
     [(''35'', ''8''), (''11'', ''A1''), (''60'', ''093009''), (''150'', ''2''),
      (''39'', ''2''), (''40'', ''2''), (''6'', ''7.20''), (''30'', ''NASD'')])
   = [csv_header,
      [''B2'', ''093006'', ''093007'', ''ZZZ'', ''1'', ''5'', ''1.00'', ''0.99'', ''ARCA''],
      [''A1'', ''093005'', ''093009'', ''QQQ'', ''2'', ''300'', ''7.25'', ''7.20'', ''NASD'']]"
proof -
  let ?first = "[(''35'', ''D''), (''11'', ''A1''), (''60'', ''093000''), (''55'', ''XYZ''),
                 (''54'', ''1''), (''38'', ''100''), (''44'', ''10.50'')]"
  let ?second = "[(''35'', ''D''), (''11'', ''A1''), (''60'', ''093005''), (''55'', ''QQQ''),
                  (''54'', ''2''), (''38'', ''300''), (''44'', ''7.25'')]"
  let ?report = "[(''35'', ''8''), (''11'', ''A1''), (''60'', ''093009''), (''150'', ''2''),
                  (''39'', ''2''), (''40'', ''2''), (''6'', ''7.20''), (''30'', ''NASD'')]"
  let ?later = "[''35=D|11=B2|60=093006|55=ZZZ|54=1|38=5|44=1.00|'',
                 ''35=8|11=B2|60=093007|150=2|39=2|40=2|6=0.99|30=ARCA|'',
                 [CHR 0x0A]]"
  let ?st = "\<lparr>orders = [], written = [csv_header]\<rparr>"
  have h: "is_new_order ?first" "get ?first ''11'' = Some ''A1''"
    "is_new_order ?second" "get ?second ''11'' = Some ''A1''" "''A1'' \<noteq> []"
    by (simp_all add: is_new_order_def get_def)
  have r: "qualifying ?report \<and> get ?report ''11'' = Some ''A1''"
    by (simp add: qualifying_def get_def)
  have no_order: "\<forall>l\<in>set ?later.
      \<not> (is_new_order (message_of l) \<and> get (message_of l) ''11'' = Some ''A1'')"
    by (simp add: run_defs)
  have before: "written (process_lines (process_message ?st ?first) [[CHR 0x0A]]) = [csv_header]"
    by (simp add: run_defs)
  have between: "written (process_lines
        (process_message (process_lines (process_message ?st ?first) [[CHR 0x0A]]) ?second)
        ?later)
      = [csv_header,
         [''B2'', ''093006'', ''093007'', ''ZZZ'', ''1'', ''5'', ''1.00'', ''0.99'', ''ARCA'']]"
    by (simp add: run_defs)
  note inst = last_new_order_wins [OF h, of ?st "[[CHR 0x0A]]" ?report ?later]
  from inst r have 1: "written (process_message
        (process_message (process_lines (process_message ?st ?first) [[CHR 0x0A]]) ?second) ?report)
      = written (process_lines (process_message ?st ?first) [[CHR 0x0A]]) @
        [[''A1'', ''093005'', ''093009'', ''QQQ'', ''2'', ''300'', ''7.25'', ''7.20'', ''NASD'']]"
    by (simp add: get_default_def py_or_def)
  from inst r no_order have 2: "written (process_message
        (process_lines
           (process_message (process_lines (process_message ?st ?first) [[CHR 0x0A]]) ?second)
           ?later) ?report)
      = written (process_lines
           (process_message (process_lines (process_message ?st ?first) [[CHR 0x0A]]) ?second)
           ?later) @
        [[''A1'', ''093005'', ''093009'', ''QQQ'', ''2'', ''300'', ''7.25'', ''7.20'', ''NASD'']]"
    by (simp add: get_default_def py_or_def)
  from 1 2 show ?thesis
    unfolding before between by simp
qed

section \<open>The store only grows\<close>

lemma pending_process_message:
  assumes "pending st k"
  shows "pending (process_message st message) k"
proof (cases "is_new_order message \<and> get message ''11'' \<noteq> None \<and> get message ''11'' \<noteq> Some []")
  case True
  then obtain k' where k': "get message ''11'' = Some k'"
    by auto
  with True have o: "orders (process_message st message)
      = AList.update k' (pending_order k' message) (orders st)"
    by (simp add: process_message_orders)
  show ?thesis
  proof (cases "k' = k")
    case True
    then show ?thesis
      by (simp add: pending_def o get_update_same pending_order_nonempty)
  next
    case False
    with assms show ?thesis
      by (simp add: pending_def o get_update_other)
  qed
next
  case False
  have "orders (process_message st message) = orders st"
    by (simp only: process_message_orders False if_False)
  with assms show ?thesis
    by (simp add: pending_def)
qed

lemma pending_process_lines: "pending st k \<Longrightarrow> pending (process_lines st ls) k"
  by (induction ls arbitrary: st) (simp_all add: process_line_message pending_process_message)

lemma process_message_matched:
  assumes "qualifying message" and "get message ''11'' = Some k" and "k \<noteq> []"
    and "pending st k"
  shows "\<exists>order. get (orders st) k = Some order \<and>
           process_message st message
           = st\<lparr>written := written st @ [fill_row k order message]\<rparr>"
proof -
  from assms(4) obtain order where "get (orders st) k = Some order" and "order \<noteq> []"
    by (auto simp: pending_def split: option.splits)
  with assms(1-3) show ?thesis
    by (simp add: process_message_fill)
qed

section \<open>A second execution report for a matched order\<close>

text \<open>
  Claim C1, as the program has it. A match does not consume the pending order. A matched
  fill leaves the store exactly as it was, and an identifier that is pending stays pending
  whatever lines follow. So every later qualifying execution report with the same
  identifier, after any lines \<open>between\<close>, writes one more row for that identifier. That
  row is built from the pending order \<open>order\<close> the first fill was matched with, or from
  the order captured from a new-order line for the identifier among \<open>between\<close>; when no
  new-order line among \<open>between\<close> names the identifier, it is built from \<open>order\<close>. When the
  later report follows at once, both rows are built from \<open>order\<close>.
\<close>

theorem match_does_not_consume:
  assumes "qualifying first_fill" and "get first_fill ''11'' = Some k" and "k \<noteq> []"
    and "get (orders st) k = Some order" and "order \<noteq> []"
    and "qualifying later_fill" and "get later_fill ''11'' = Some k"
  shows "orders (process_message st first_fill) = orders st
         \<and> (\<exists>order'. written (process_message
                          (process_lines (process_message st first_fill) between) later_fill)
                      = written (process_lines (process_message st first_fill) between) @
                        [fill_row k order' later_fill]
                    \<and> (order' = order \<or>
                       (\<exists>l\<in>set between. is_new_order (message_of l) \<and>
                          get (message_of l) ''11'' = Some k \<and>
                          order' = pending_order k (message_of l))))
         \<and> ((\<forall>l\<in>set between.
                \<not> (is_new_order (message_of l) \<and> get (message_of l) ''11'' = Some k)) \<longrightarrow>
              written (process_message
                         (process_lines (process_message st first_fill) between) later_fill)
              = written (process_lines (process_message st first_fill) between) @
                [fill_row k order later_fill])
         \<and> written (process_message (process_message st first_fill) later_fill)
           = written st @ [fill_row k order first_fill, fill_row k order later_fill]"
proof -
  define after where "after = process_lines (process_message st first_fill) between"
  have first: "process_message st first_fill
               = st\<lparr>written := written st @ [fill_row k order first_fill]\<rparr>"
    using assms(1-5) by (rule process_message_fill)
  then have kept: "orders (process_message st first_fill) = orders st"
    by simp
  have row: "written (process_message after later_fill)
             = written after @ [fill_row k order' later_fill]"
    if "get (orders after) k = Some order'" and "order' \<noteq> []" for order'
    using assms(6,7,3) that by (simp add: process_message_fill)
  have origin: "get (orders after) k = Some order \<or>
      (\<exists>l\<in>set between. is_new_order (message_of l) \<and> get (message_of l) ''11'' = Some k \<and>
         get (orders after) k = Some (pending_order k (message_of l)))"
    using store_entry_origin [of "process_message st first_fill" between k]
    by (simp add: after_def kept assms(4))
  have again: "\<exists>order'. written (process_message after later_fill)
                      = written after @ [fill_row k order' later_fill]
                    \<and> (order' = order \<or>
                       (\<exists>l\<in>set between. is_new_order (message_of l) \<and>
                          get (message_of l) ''11'' = Some k \<and>
                          order' = pending_order k (message_of l)))"
    using origin
  proof
    assume "get (orders after) k = Some order"
    with assms(5) have "written (process_message after later_fill)
                        = written after @ [fill_row k order later_fill]"
      by (rule row [rotated])
    then show ?thesis
      by blast
  next
    assume "\<exists>l\<in>set between. is_new_order (message_of l) \<and> get (message_of l) ''11'' = Some k \<and>
              get (orders after) k = Some (pending_order k (message_of l))"
    then obtain l where l: "l \<in> set between" "is_new_order (message_of l)"
        "get (message_of l) ''11'' = Some k"
        "get (orders after) k = Some (pending_order k (message_of l))"
      by blast
    from l(4) pending_order_nonempty
    have "written (process_message after later_fill)
          = written after @ [fill_row k (pending_order k (message_of l)) later_fill]"
      by (rule row)
    with l(1-3) show ?thesis
      by blast
  qed
  have same: "written (process_message after later_fill)
              = written after @ [fill_row k order later_fill]"
    if "\<forall>l\<in>set between. \<not> (is_new_order (message_of l) \<and> get (message_of l) ''11'' = Some k)"
  proof -
    from that have "get (orders after) k = get (orders (process_message st first_fill)) k"
      unfolding after_def by (rule store_entry_kept)
    then have "get (orders after) k = Some order"
      by (simp add: kept assms(4))
    with assms(5) show ?thesis
      by (rule row [rotated])
  qed
  have "process_message (process_message st first_fill) later_fill
        = (process_message st first_fill)
            \<lparr>written := written (process_message st first_fill) @ [fill_row k order later_fill]\<rparr>"
    using assms(6,7,3) _ assms(5) by (rule process_message_fill) (simp add: kept assms(4))
  then have both: "written (process_message (process_message st first_fill) later_fill)
           = written st @ [fill_row k order first_fill, fill_row k order later_fill]"
    by (simp add: first)
  from kept again same both show ?thesis
    unfolding after_def by blast
qed

text \<open>
  The order \<^verbatim>\<open>A1\<close> is in the store; two qualifying execution reports for \<^verbatim>\<open>A1\<close> follow
  each other. Both write a row, and both rows carry the order's timestamp, symbol, side,
  quantity and price. They do so as well when a new order \<^verbatim>\<open>B2\<close>, a fill for the
  unknown \<^verbatim>\<open>C3\<close> and a blank line stand between the two reports.
\<close>

theorem match_does_not_consume_witness:
  "written (process_message
     (process_message
        \<lparr>orders = [(''A1'', [(''11'', ''A1''), (''60'', ''093000''), (''55'', ''XYZ''),
                              (''54'', ''1''), (''38'', ''100''), (''44'', ''10.50'')])],
          written = [csv_header]\<rparr>
        [(''35'', ''8''), (''11'', ''A1''), (''60'', ''093001''), (''150'', ''2''),
         (''39'', ''2''), (''40'', ''2''), (''6'', ''10.40''), (''30'', ''NASD'')])
     [(''35'', ''8''), (''11'', ''A1''), (''60'', ''093002''), (''150'', ''2''),
      (''39'', ''2''), (''40'', ''2''), (''6'', ''10.45''), (''30'', ''ARCA'')])
   = [csv_header,
      [''A1'', ''093000'', ''093001'', ''XYZ'', ''1'', ''100'', ''10.50'', ''10.40'', ''NASD''],
      [''A1'', ''093000'', ''093002'', ''XYZ'', ''1'', ''100'', ''10.50'', ''10.45'', ''ARCA'']]
   \<and> written (process_message
     (process_lines
        (process_message
           \<lparr>orders = [(''A1'', [(''11'', ''A1''), (''60'', ''093000''), (''55'', ''XYZ''),
                                 (''54'', ''1''), (''38'', ''100''), (''44'', ''10.50'')])],
             written = [csv_header]\<rparr>
           [(''35'', ''8''), (''11'', ''A1''), (''60'', ''093001''), (''150'', ''2''),
            (''39'', ''2''), (''40'', ''2''), (''6'', ''10.40''), (''30'', ''NASD'')])
        [''35=D|11=B2|60=093006|55=ZZZ|54=1|38=5|44=1.00|'',
         ''35=8|11=C3|60=093007|150=2|39=2|40=2|6=0.99|30=ARCA|'',
         [CHR 0x0A]])
     [(''35'', ''8''), (''11'', ''A1''), (''60'', ''093002''), (''150'', ''2''),
      (''39'', ''2''), (''40'', ''2''), (''6'', ''10.45''), (''30'', ''ARCA'')])
   = [csv_header,
      [''A1'', ''093000'', ''093001'', ''XYZ'', ''1'', ''100'', ''10.50'', ''10.40'', ''NASD''],
      [''A1'', ''093000'', ''093002'', ''XYZ'', ''1'', ''100'', ''10.50'', ''10.45'', ''ARCA'']]"
proof -
  let ?order = "[(''11'', ''A1''), (''60'', ''093000''), (''55'', ''XYZ''),
                 (''54'', ''1''), (''38'', ''100''), (''44'', ''10.50'')]"
  let ?st = "\<lparr>orders = [(''A1'', ?order)], written = [csv_header]\<rparr>"
  let ?e1 = "[(''35'', ''8''), (''11'', ''A1''), (''60'', ''093001''), (''150'', ''2''),
              (''39'', ''2''), (''40'', ''2''), (''6'', ''10.40''), (''30'', ''NASD'')]"
  let ?e2 = "[(''35'', ''8''), (''11'', ''A1''), (''60'', ''093002''), (''150'', ''2''),
              (''39'', ''2''), (''40'', ''2''), (''6'', ''10.45''), (''30'', ''ARCA'')]"
  let ?between = "[''35=D|11=B2|60=093006|55=ZZZ|54=1|38=5|44=1.00|'',
                   ''35=8|11=C3|60=093007|150=2|39=2|40=2|6=0.99|30=ARCA|'',
                   [CHR 0x0A]]"
  have h1: "qualifying ?e1" "get ?e1 ''11'' = Some ''A1''" "''A1'' \<noteq> []"
    by (simp_all add: qualifying_def get_def)
  have h2: "get (orders ?st) ''A1'' = Some ?order" "?order \<noteq> []"
    by (simp_all add: get_def)
  have h3: "qualifying ?e2" "get ?e2 ''11'' = Some ''A1''"
    by (simp_all add: qualifying_def get_def)
  have no_order: "\<forall>l\<in>set ?between.
      \<not> (is_new_order (message_of l) \<and> get (message_of l) ''11'' = Some ''A1'')"
    by (simp add: run_defs)
  have mid: "written (process_lines (process_message ?st ?e1) ?between)
      = [csv_header,
         [''A1'', ''093000'', ''093001'', ''XYZ'', ''1'', ''100'', ''10.50'', ''10.40'', ''NASD'']]"
    by (simp add: run_defs)
  note inst = match_does_not_consume [OF h1 h2 h3, of ?between]
  from inst
  have "written (process_message (process_message ?st ?e1) ?e2)
        = written ?st @ [fill_row ''A1'' ?order ?e1, fill_row ''A1'' ?order ?e2]"
    by blast
  then have 1: "written (process_message (process_message ?st ?e1) ?e2)
      = [csv_header,
         [''A1'', ''093000'', ''093001'', ''XYZ'', ''1'', ''100'', ''10.50'', ''10.40'', ''NASD''],
         [''A1'', ''093000'', ''093002'', ''XYZ'', ''1'', ''100'', ''10.50'', ''10.45'', ''ARCA'']]"
    by (simp add: fill_row_def get_default_def py_or_def)
  from inst no_order
  have "written (process_message (process_lines (process_message ?st ?e1) ?between) ?e2)
        = written (process_lines (process_message ?st ?e1) ?between) @
          [fill_row ''A1'' ?order ?e2]"
    by blast
  then have 2: "written (process_message (process_lines (process_message ?st ?e1) ?between) ?e2)
      = [csv_header,
         [''A1'', ''093000'', ''093001'', ''XYZ'', ''1'', ''100'', ''10.50'', ''10.40'', ''NASD''],
         [''A1'', ''093000'', ''093002'', ''XYZ'', ''1'', ''100'', ''10.50'', ''10.45'', ''ARCA'']]"
    unfolding mid by (simp add: fill_row_def get_default_def py_or_def)
  from 1 2 show ?thesis
    by simp
qed

text \<open>
  Claim C1 as the specification words it ("once matched it is not reused for a second
  execution") fails on the stream of one new order and two qualifying execution reports
  for it: the second report writes a second row from the same pending order.
\<close>

theorem second_fill_counterexample:
  "written (process_fix_file
     [''35=D|11=A1|60=093000|55=XYZ|54=1|38=100|44=10.50|'' @ [CHR 0x0A],
      ''35=8|11=A1|60=093001|150=2|39=2|40=2|6=10.40|30=NASD|'' @ [CHR 0x0A],
      ''35=8|11=A1|60=093002|150=2|39=2|40=2|6=10.45|30=ARCA|'' @ [CHR 0x0A]])
   = [csv_header,
      [''A1'', ''093000'', ''093001'', ''XYZ'', ''1'', ''100'', ''10.50'', ''10.40'', ''NASD''],
      [''A1'', ''093000'', ''093002'', ''XYZ'', ''1'', ''100'', ''10.50'', ''10.45'', ''ARCA'']]"
  by (simp add: run_defs)

section \<open>The rows written for a stream\<close>

text \<open>
  The rows the loop body appends for one message: the row of the fill when the message is
  a matched fill in the state, none otherwise.
\<close>

lemma written_process_message:
  "written (process_message st message) = written st @ emitted st message"
  by (auto simp: process_message_def emitted_def matched_fill_def qualifying_def pending_def
      Let_def split: option.splits)

lemma emitted_length: "length (emitted st message) = (if matched_fill st message then 1 else 0)"
  by (auto simp: emitted_def matched_fill_def pending_def split: option.splits)

lemma emitted_unmatched: "\<not> matched_fill st message \<Longrightarrow> emitted st message = []"
  by (simp add: emitted_def split: option.splits)

lemma written_process_fix_file:
  "written (process_fix_file ls) =
     csv_header # concat (map (\<lambda>n. emitted (process_fix_file (take n ls)) (message_of (ls ! n)))
                            [0..<length ls])"
proof (induction ls rule: rev_induct)
  case Nil
  show ?case
    by (simp add: process_fix_file_def)
next
  case (snoc l ls)
  define F where "F = (\<lambda>xs n. emitted (process_fix_file (take n xs)) (message_of (xs ! n)))"
  have same: "map (F (ls @ [l])) [0..<length ls] = map (F ls) [0..<length ls]"
  proof (rule map_cong [OF refl])
    fix n
    assume "n \<in> set [0..<length ls]"
    then have "n < length ls"
      by simp
    then show "F (ls @ [l]) n = F ls n"
      by (simp add: F_def nth_append)
  qed
  have last: "F (ls @ [l]) (length ls) = emitted (process_fix_file ls) (message_of l)"
    by (simp add: F_def)
  have "written (process_fix_file (ls @ [l]))
        = written (process_fix_file ls) @ emitted (process_fix_file ls) (message_of l)"
    by (simp add: process_fix_file_snoc written_process_message)
  also have "\<dots> = csv_header # concat (map (F ls) [0..<length ls]) @ F (ls @ [l]) (length ls)"
    using snoc.IH by (simp add: F_def last)
  also have "\<dots> = csv_header # concat (map (F (ls @ [l])) [0..<length (ls @ [l])])"
    by (simp add: same)
  finally show ?case
    by (simp only: F_def)
qed

text \<open>
  The end-to-end example of the specification, with \<^verbatim>\<open>\x01\<close> as the separator: the header
  and the one row \<^verbatim>\<open>A1,20240102-09:30:00.000,20240102-09:30:01.500,XYZ,1,100,10.50,10.40,NASD\<close>.
\<close>

lemma end_to_end_example:
  "written (process_fix_file
     [''35=D'' @ [CHR 0x01] @ ''11=A1'' @ [CHR 0x01] @ ''60=20240102-09:30:00.000'' @ [CHR 0x01] @
      ''55=XYZ'' @ [CHR 0x01] @ ''54=1'' @ [CHR 0x01] @ ''38=100'' @ [CHR 0x01] @ ''44=10.50'' @
      [CHR 0x01, CHR 0x0A],
      ''35=8'' @ [CHR 0x01] @ ''11=A1'' @ [CHR 0x01] @ ''60=20240102-09:30:01.500'' @ [CHR 0x01] @
      ''150=2'' @ [CHR 0x01] @ ''39=2'' @ [CHR 0x01] @ ''40=2'' @ [CHR 0x01] @ ''6=10.40'' @
      [CHR 0x01] @ ''30=NASD'' @ [CHR 0x01, CHR 0x0A]])
   = [[''OrderID'', ''OrderTransactTime'', ''ExecutionTransactTime'', ''Symbol'',
       ''Side'', ''OrderQty'', ''LimitPrice'', ''AvgPx'', ''LastMkt''],
      [''A1'', ''20240102-09:30:00.000'', ''20240102-09:30:01.500'', ''XYZ'', ''1'', ''100'',
       ''10.50'', ''10.40'', ''NASD'']]"
  by (simp add: run_defs)

text \<open>
  Claim C7. The rows written for a stream are the header, once and first, followed by the
  rows of the matched fills in stream order: line by line, a line that is a matched fill in
  the state reached before it contributes its one row, every other line contributes
  nothing. The header is the nine column names in the order given. A stream without a
  matched fill (the empty stream among them) produces the header row and nothing else.
\<close>

theorem header_once_then_fills:
  "csv_header = [''OrderID'', ''OrderTransactTime'', ''ExecutionTransactTime'', ''Symbol'',
                 ''Side'', ''OrderQty'', ''LimitPrice'', ''AvgPx'', ''LastMkt'']
   \<and> written (process_fix_file ls) =
       csv_header # concat (map (\<lambda>n. emitted (process_fix_file (take n ls)) (message_of (ls ! n)))
                              [0..<length ls])
   \<and> (\<forall>st message. length (emitted st message) = (if matched_fill st message then 1 else 0))
   \<and> ((\<forall>n<length ls. \<not> matched_fill (process_fix_file (take n ls)) (message_of (ls ! n))) \<longrightarrow>
        written (process_fix_file ls) = [csv_header])"
proof -
  have none: "written (process_fix_file ls) = [csv_header]"
    if "\<forall>n<length ls. \<not> matched_fill (process_fix_file (take n ls)) (message_of (ls ! n))"
  proof -
    from that
    have "map (\<lambda>n. emitted (process_fix_file (take n ls)) (message_of (ls ! n))) [0..<length ls]
          = map (\<lambda>n. []) [0..<length ls]"
      by (intro map_cong refl) (simp add: emitted_unmatched)
    then show ?thesis
      by (simp add: written_process_fix_file)
  qed
  have header: "csv_header = [''OrderID'', ''OrderTransactTime'', ''ExecutionTransactTime'',
      ''Symbol'', ''Side'', ''OrderQty'', ''LimitPrice'', ''AvgPx'', ''LastMkt'']"
    by (simp add: csv_header_def)
  from header written_process_fix_file [of ls] emitted_length none show ?thesis
    by blast
qed

text \<open>
  A stream of four lines: an execution report for an order not yet seen, the order, a
  blank line and the execution report again. Only the last line is a matched fill; the
  output is the header and its row. A stream of the first line alone gives the header only.
\<close>

theorem header_once_then_fills_witness:
  "written (process_fix_file
     [''35=8|11=A1|60=093001|150=2|39=2|40=2|6=10.40|30=NASD|'' @ [CHR 0x0A],
      ''35=D|11=A1|60=093000|55=XYZ|54=1|38=100|44=10.50|'' @ [CHR 0x0A],
      [CHR 0x0A],
      ''35=8|11=A1|60=093001|150=2|39=2|40=2|6=10.40|30=NASD|''])
   = [[''OrderID'', ''OrderTransactTime'', ''ExecutionTransactTime'', ''Symbol'',
       ''Side'', ''OrderQty'', ''LimitPrice'', ''AvgPx'', ''LastMkt''],
      [''A1'', ''093000'', ''093001'', ''XYZ'', ''1'', ''100'', ''10.50'', ''10.40'', ''NASD'']]
   \<and> \<not> matched_fill (process_fix_file [])
         (message_of (''35=8|11=A1|60=093001|150=2|39=2|40=2|6=10.40|30=NASD|'' @ [CHR 0x0A]))
   \<and> written (process_fix_file
        [''35=8|11=A1|60=093001|150=2|39=2|40=2|6=10.40|30=NASD|'' @ [CHR 0x0A]])
      = [csv_header]"
proof -
  let ?exe = "''35=8|11=A1|60=093001|150=2|39=2|40=2|6=10.40|30=NASD|'' @ [CHR 0x0A]"
  let ?new = "''35=D|11=A1|60=093000|55=XYZ|54=1|38=100|44=10.50|'' @ [CHR 0x0A]"
  let ?ls = "[?exe, ?new, [CHR 0x0A], ''35=8|11=A1|60=093001|150=2|39=2|40=2|6=10.40|30=NASD|'']"
  have unmatched: "\<not> matched_fill (process_fix_file []) (message_of ?exe)"
    by (simp add: run_defs)
  then have "\<forall>n<length [?exe]. \<not> matched_fill (process_fix_file (take n [?exe]))
                                   (message_of ([?exe] ! n))"
    by simp
  with header_once_then_fills [of "[?exe]"]
  have header_only: "written (process_fix_file [?exe]) = [csv_header]"
    by blast
  have "written (process_fix_file ?ls) =
       csv_header # concat (map (\<lambda>n. emitted (process_fix_file (take n ?ls)) (message_of (?ls ! n)))
                              [0..<length ?ls])"
    using header_once_then_fills [of ?ls] by blast
  also have "\<dots> = [[''OrderID'', ''OrderTransactTime'', ''ExecutionTransactTime'', ''Symbol'',
       ''Side'', ''OrderQty'', ''LimitPrice'', ''AvgPx'', ''LastMkt''],
      [''A1'', ''093000'', ''093001'', ''XYZ'', ''1'', ''100'', ''10.50'', ''10.40'', ''NASD'']]"
    by (simp add: run_defs emitted_def upt_rec [of 0] upt_rec [of 1] upt_rec [of 2] upt_rec [of 3]
        upt_rec [of 4])
  finally show ?thesis
    using unmatched header_only by simp
qed

section \<open>Rows only for orders seen earlier in the stream\<close>

text \<open>An entry of the store was there at the start or comes from a new-order line.\<close>

lemma orders_process_message_origin:
  assumes "get (orders (process_message st message)) k \<noteq> None"
  shows "get (orders st) k \<noteq> None \<or> (is_new_order message \<and> get message ''11'' = Some k)"
proof (cases "is_new_order message \<and> get message ''11'' \<noteq> None \<and> get message ''11'' \<noteq> Some []")
  case True
  then obtain k' where k': "get message ''11'' = Some k'"
    by auto
  with True have o: "orders (process_message st message)
      = AList.update k' (pending_order k' message) (orders st)"
    by (simp add: process_message_orders)
  show ?thesis
  proof (cases "k' = k")
    case True
    with k' \<open>is_new_order message \<and> _\<close> show ?thesis
      by simp
  next
    case False
    with assms show ?thesis
      by (simp add: o get_update_other)
  qed
next
  case False
  have "orders (process_message st message) = orders st"
    by (simp only: process_message_orders False if_False)
  with assms show ?thesis
    by simp
qed

lemma orders_process_lines_origin:
  assumes "get (orders (process_lines st ls)) k \<noteq> None"
  shows "get (orders st) k \<noteq> None \<or>
         (\<exists>l\<in>set ls. is_new_order (message_of l) \<and> get (message_of l) ''11'' = Some k)"
  using assms
proof (induction ls arbitrary: st)
  case Nil
  then show ?case
    by simp
next
  case (Cons l ls)
  from Cons.prems have "get (orders (process_lines (process_line st l) ls)) k \<noteq> None"
    by simp
  from Cons.IH [OF this]
  consider "get (orders (process_line st l)) k \<noteq> None"
    | "\<exists>l'\<in>set ls. is_new_order (message_of l') \<and> get (message_of l') ''11'' = Some k"
    by blast
  then show ?case
  proof cases
    case 1
    then have "get (orders st) k \<noteq> None \<or>
               (is_new_order (message_of l) \<and> get (message_of l) ''11'' = Some k)"
      by (simp only: process_line_message) (rule orders_process_message_origin)
    then show ?thesis
      by auto
  next
    case 2
    then show ?thesis
      by auto
  qed
qed

lemma orders_process_fix_file_origin:
  assumes "get (orders (process_fix_file ls)) k \<noteq> None"
  shows "\<exists>l\<in>set ls. is_new_order (message_of l) \<and> get (message_of l) ''11'' = Some k"
  using orders_process_lines_origin [of "\<lparr>orders = [], written = [csv_header]\<rparr>" ls k] assms
  by (simp add: process_fix_file_def get_def)

text \<open>
  Claim C8. Processing one more line \<open>l\<close> after the lines \<open>earlier\<close> of a stream either
  writes nothing, or writes one row whose first cell, the correlation identifier, is field
  \<^verbatim>\<open>11\<close> of a new-order line among \<open>earlier\<close>. A qualifying execution report whose
  identifier has no entry in the store leaves the state as it was: no row, and (the loop
  body being total) no error.
\<close>

theorem rows_only_for_observed_orders:
  "(written (process_fix_file (earlier @ [l])) = written (process_fix_file earlier)
      \<or> (\<exists>row new_order.
            written (process_fix_file (earlier @ [l])) = written (process_fix_file earlier) @ [row]
            \<and> length row = 9
            \<and> new_order \<in> set earlier
            \<and> is_new_order (message_of new_order)
            \<and> get (message_of new_order) ''11'' = Some (row ! 0)))
   \<and> (qualifying message \<and> get message ''11'' = Some k \<and> get (orders st) k = None \<longrightarrow>
        process_message st message = st)"
proof -
  let ?st = "process_fix_file earlier"
  let ?m = "message_of l"
  have rows: "written (process_fix_file (earlier @ [l])) = written ?st
      \<or> (\<exists>row new_order.
            written (process_fix_file (earlier @ [l])) = written ?st @ [row]
            \<and> length row = 9
            \<and> new_order \<in> set earlier
            \<and> is_new_order (message_of new_order)
            \<and> get (message_of new_order) ''11'' = Some (row ! 0))"
  proof (cases "matched_fill ?st ?m")
    case False
    then show ?thesis
      by (simp add: process_fix_file_snoc written_process_message emitted_unmatched)
  next
    case True
    then obtain k' order where k': "get ?m ''11'' = Some k'" and o: "get (orders ?st) k' = Some order"
      by (auto simp: matched_fill_def pending_def split: option.splits)
    with True have w: "written (process_fix_file (earlier @ [l]))
                       = written ?st @ [fill_row k' order ?m]"
      by (simp add: process_fix_file_snoc written_process_message emitted_def)
    from o have "get (orders ?st) k' \<noteq> None"
      by simp
    then obtain new_order where "new_order \<in> set earlier" and "is_new_order (message_of new_order)"
      and "get (message_of new_order) ''11'' = Some k'"
      using orders_process_fix_file_origin by blast
    with w fill_row_length [of k' order ?m] fill_row_plain_cells(1) [of k' order ?m]
    show ?thesis
      by metis
  qed
  have unknown: "process_message st message = st"
    if "qualifying message \<and> get message ''11'' = Some k \<and> get (orders st) k = None"
    using that by (intro process_message_not_pending [of _ k]) (simp_all add: qualifying_def pending_def)
  from rows unknown show ?thesis
    by blast
qed

text \<open>
  After the new-order line for \<^verbatim>\<open>A1\<close>, a qualifying execution report for the unseen
  identifier \<^verbatim>\<open>B7\<close> changes nothing, and the one for \<^verbatim>\<open>A1\<close> writes the row of \<^verbatim>\<open>A1\<close>.
\<close>

theorem rows_only_for_observed_orders_witness:
  "qualifying (message_of ''35=8|11=B7|60=093001|150=2|39=2|40=2|6=10.40|30=NASD|'')
   \<and> get (message_of ''35=8|11=B7|60=093001|150=2|39=2|40=2|6=10.40|30=NASD|'') ''11'' = Some ''B7''
   \<and> get (orders (process_fix_file [''35=D|11=A1|60=093000|55=XYZ|54=1|38=100|44=10.50|''])) ''B7''
       = None
   \<and> process_message (process_fix_file [''35=D|11=A1|60=093000|55=XYZ|54=1|38=100|44=10.50|''])
        (message_of ''35=8|11=B7|60=093001|150=2|39=2|40=2|6=10.40|30=NASD|'')
      = process_fix_file [''35=D|11=A1|60=093000|55=XYZ|54=1|38=100|44=10.50|'']
   \<and> written (process_fix_file
        ([''35=D|11=A1|60=093000|55=XYZ|54=1|38=100|44=10.50|''] @
         [''35=8|11=A1|60=093001|150=2|39=2|40=2|6=10.40|30=NASD|'']))
      = written (process_fix_file [''35=D|11=A1|60=093000|55=XYZ|54=1|38=100|44=10.50|'']) @
        [[''A1'', ''093000'', ''093001'', ''XYZ'', ''1'', ''100'', ''10.50'', ''10.40'', ''NASD'']]
   \<and> is_new_order (message_of ''35=D|11=A1|60=093000|55=XYZ|54=1|38=100|44=10.50|'')
   \<and> get (message_of ''35=D|11=A1|60=093000|55=XYZ|54=1|38=100|44=10.50|'') ''11'' = Some ''A1''"
proof -
  let ?new = "''35=D|11=A1|60=093000|55=XYZ|54=1|38=100|44=10.50|''"
  let ?other = "''35=8|11=B7|60=093001|150=2|39=2|40=2|6=10.40|30=NASD|''"
  have other: "message_of ?other = [(''35'', ''8''), (''11'', ''B7''), (''60'', ''093001''),
      (''150'', ''2''), (''39'', ''2''), (''40'', ''2''), (''6'', ''10.40''), (''30'', ''NASD'')]"
    by (simp add: run_defs)
  have new: "message_of ?new = [(''35'', ''D''), (''11'', ''A1''), (''60'', ''093000''),
      (''55'', ''XYZ''), (''54'', ''1''), (''38'', ''100''), (''44'', ''10.50'')]"
    by (simp add: run_defs)
  have store: "orders (process_fix_file [?new]) = [(''A1'', [(''11'', ''A1''), (''60'', ''093000''),
      (''55'', ''XYZ''), (''54'', ''1''), (''38'', ''100''), (''44'', ''10.50'')])]"
    by (simp add: run_defs)
  have h: "qualifying (message_of ?other) \<and> get (message_of ?other) ''11'' = Some ''B7'' \<and>
           get (orders (process_fix_file [?new])) ''B7'' = None"
    unfolding other store by (simp add: qualifying_def get_def)
  with rows_only_for_observed_orders
  have dropped: "process_message (process_fix_file [?new]) (message_of ?other)
                 = process_fix_file [?new]"
    by blast
  have row: "written (process_fix_file ([?new] @
         [''35=8|11=A1|60=093001|150=2|39=2|40=2|6=10.40|30=NASD|'']))
      = written (process_fix_file [?new]) @
        [[''A1'', ''093000'', ''093001'', ''XYZ'', ''1'', ''100'', ''10.50'', ''10.40'', ''NASD'']]"
    by (simp add: run_defs)
  have "is_new_order (message_of ?new)" "get (message_of ?new) ''11'' = Some ''A1''"
    unfolding new by (simp_all add: is_new_order_def get_def)
  with h dropped row show ?thesis
    by simp
qed

end
